theory Spec2Isabelle
  imports Complex_Main "HOL-Library.Char_ord" "HOL-Library.List_Lexorder"
begin

section \<open>Python values, exceptions and strings\<close>

text \<open>
  A Python \<open>str\<close> is modelled as a HOL \<open>string\<close>, one \<open>char\<close> per character
  (characters are restricted to the code points below 256). Exceptions are values:
  a class and the text that \<open>str(e)\<close> renders inside an f-string.
\<close>

datatype exc_class =
  RequestException | HTTPError | JSONDecodeError | UnicodeDecodeError
  | KeyError | IndexError | TypeError | AttributeError | ValueError | OSError

datatype py_exc = Exc exc_class string

fun exc_class_of :: "py_exc \<Rightarrow> exc_class" where
  "exc_class_of (Exc c m) = c"

fun exc_str :: "py_exc \<Rightarrow> string" where
  "exc_str (Exc c m) = m"

text \<open>\<open>str.isspace\<close> on the characters below 256, as \<open>str.strip()\<close> uses it.\<close>

definition isspace :: "char \<Rightarrow> bool" where
  "isspace c = ((of_char c :: nat) \<in> {9, 10, 11, 12, 13, 28, 29, 30, 31, 32, 133, 160})"

definition strip :: "string \<Rightarrow> string" where
  "strip s = rev (dropWhile isspace (rev (dropWhile isspace s)))"

definition startswith :: "string \<Rightarrow> string \<Rightarrow> bool" where
  "startswith s p = (take (length p) s = p)"

definition endswith :: "string \<Rightarrow> string \<Rightarrow> bool" where
  "endswith s p = (length p \<le> length s \<and> drop (length s - length p) s = p)"

text \<open>\<open>str(n)\<close> for a non-negative integer: its decimal digits.\<close>

definition digit_char :: "nat \<Rightarrow> char" where
  "digit_char d = char_of (48 + d)"

function str_nat :: "nat \<Rightarrow> string" where
  "str_nat n = (if n < 10 then [digit_char n] else str_nat (n div 10) @ [digit_char (n mod 10)])"
  by pat_completeness auto
termination
  by (relation "measure (\<lambda>n. n)") auto

declare str_nat.simps [simp del]

section \<open>Slicing and \<open>range\<close>\<close>

text \<open>
  \<open>xs[i:j]\<close> with Python's clamping of the two bounds (a negative bound counts from
  the end), and \<open>range(start, stop, step)\<close>, which raises \<open>ValueError\<close> for a zero step.
\<close>

definition slice_bound :: "nat \<Rightarrow> int \<Rightarrow> nat" where
  "slice_bound n i = (if i < 0 then nat (int n + i) else min n (nat i))"

definition py_slice :: "'a list \<Rightarrow> int \<Rightarrow> int \<Rightarrow> 'a list" where
  "py_slice xs i j =
     (let a = slice_bound (length xs) i; b = slice_bound (length xs) j
      in take (b - a) (drop a xs))"

function range_up :: "int \<Rightarrow> int \<Rightarrow> int \<Rightarrow> int list" where
  "range_up i stop step =
     (if 0 < step \<and> i < stop then i # range_up (i + step) stop step else [])"
  by pat_completeness auto
termination
  by (relation "measure (\<lambda>(i, stop, step). nat (stop - i))") auto

declare range_up.simps [simp del]

function range_down :: "int \<Rightarrow> int \<Rightarrow> int \<Rightarrow> int list" where
  "range_down i stop step =
     (if step < 0 \<and> stop < i then i # range_down (i + step) stop step else [])"
  by pat_completeness auto
termination
  by (relation "measure (\<lambda>(i, stop, step). nat (i - stop))") auto

declare range_down.simps [simp del]

definition py_range :: "int \<Rightarrow> int \<Rightarrow> int \<Rightarrow> py_exc + int list" where
  "py_range start stop step =
     (if step = 0 then Inl (Exc ValueError ''range() arg 3 must not be zero'')
      else if 0 < step then Inr (range_up start stop step)
      else Inr (range_down start stop step))"

section \<open>Chunker: \<open>load_all_chunks\<close>\<close>

text \<open>
  The document directory is the list of its entries: a file name and what
  \<open>read_text(encoding="utf-8")\<close> gives for it, the text or the exception it raises.
  \<open>glob("*.txt")\<close> keeps the names ending in \<open>.txt\<close> and \<open>sorted\<close> orders them by name.
\<close>

type_synonym directory = "(string \<times> (py_exc + string)) list"

definition glob_txt :: "directory \<Rightarrow> directory" where
  "glob_txt d = filter (\<lambda>(name, content). endswith name ''.txt'') d"

text \<open>The list comprehension of line 47.\<close>

definition file_chunks :: "string \<Rightarrow> int \<Rightarrow> py_exc + string list" where
  "file_chunks text chunk_size =
     (case py_range 0 (int (length text)) chunk_size of
        Inl e \<Rightarrow> Inl e
      | Inr starts \<Rightarrow> Inr (map (\<lambda>i. py_slice text i (i + chunk_size)) starts))"

fun load_files :: "directory \<Rightarrow> int \<Rightarrow> string list \<Rightarrow> py_exc + string list" where
  "load_files [] chunk_size chunks = Inr chunks"
| "load_files ((name, content) # files) chunk_size chunks =
     (case content of
        Inl e \<Rightarrow> Inl e
      | Inr raw \<Rightarrow>
          (let text = strip raw in
           if text = [] then load_files files chunk_size chunks
           else (case file_chunks text chunk_size of
                   Inl e \<Rightarrow> Inl e
                 | Inr cs \<Rightarrow> load_files files chunk_size (chunks @ cs))))"

definition load_all_chunks :: "directory \<Rightarrow> int \<Rightarrow> py_exc + string list" where
  "load_all_chunks data_dir chunk_size =
     load_files (sort_key fst (glob_txt data_dir)) chunk_size []"


section \<open>Dynamically typed values\<close>

text \<open>
  What \<open>json.loads\<close> returns: \<open>None\<close>, booleans, integers, strings, lists and
  dictionaries (an association list, read with \<open>map_of\<close>). Floating-point numbers are
  left out of the model.
\<close>

datatype pyval =
  PNone | PBool bool | PInt int | PStr string | PList "pyval list"
  | PDict "(string \<times> pyval) list"

fun truthy :: "pyval \<Rightarrow> bool" where
  "truthy PNone = False"
| "truthy (PBool b) = b"
| "truthy (PInt i) = (i \<noteq> 0)"
| "truthy (PStr s) = (s \<noteq> [])"
| "truthy (PList xs) = (xs \<noteq> [])"
| "truthy (PDict kv) = (kv \<noteq> [])"

fun type_name :: "pyval \<Rightarrow> string" where
  "type_name PNone = ''NoneType''"
| "type_name (PBool b) = ''bool''"
| "type_name (PInt i) = ''int''"
| "type_name (PStr s) = ''str''"
| "type_name (PList xs) = ''list''"
| "type_name (PDict kv) = ''dict''"

definition dict_get :: "(string \<times> pyval) list \<Rightarrow> string \<Rightarrow> pyval \<Rightarrow> pyval" where
  "dict_get kv key dflt = (case map_of kv key of Some v \<Rightarrow> v | None \<Rightarrow> dflt)"

definition quoted :: "string \<Rightarrow> string" where
  "quoted s = CHR 0x27 # s @ [CHR 0x27]"

text \<open>\<open>accumulated += v\<close> where \<open>accumulated\<close> is a \<open>str\<close>.\<close>

fun str_iadd :: "string \<Rightarrow> pyval \<Rightarrow> py_exc + string" where
  "str_iadd a (PStr b) = Inr (a @ b)"
| "str_iadd a v =
     Inl (Exc TypeError
       (''can only concatenate str (not '' @ [CHR 0x22] @ type_name v @ [CHR 0x22] @ '') to str''))"

definition int_of_pyval :: "pyval \<Rightarrow> int option" where
  "int_of_pyval v =
     (case v of PInt i \<Rightarrow> Some i | PBool b \<Rightarrow> Some (if b then 1 else 0) | _ \<Rightarrow> None)"

definition unsupported_iadd :: "pyval \<Rightarrow> pyval \<Rightarrow> py_exc" where
  "unsupported_iadd a b =
     Exc TypeError (''unsupported operand type(s) for +=: '' @ quoted (type_name a)
                    @ '' and '' @ quoted (type_name b))"

definition num_iadd :: "pyval \<Rightarrow> pyval \<Rightarrow> py_exc + pyval" where
  "num_iadd a b =
     (case (int_of_pyval a, int_of_pyval b) of
        (Some i, Some j) \<Rightarrow> Inr (PInt (i + j))
      | _ \<Rightarrow> Inl (unsupported_iadd a b))"

text \<open>\<open>chunk_text += v\<close> for a \<open>chunk_text\<close> of any type (a list is extended by an iterable).\<close>

fun py_iadd :: "pyval \<Rightarrow> pyval \<Rightarrow> py_exc + pyval" where
  "py_iadd (PStr a) v = (case str_iadd a v of Inl e \<Rightarrow> Inl e | Inr s \<Rightarrow> Inr (PStr s))"
| "py_iadd (PList a) (PList b) = Inr (PList (a @ b))"
| "py_iadd (PList a) (PStr b) = Inr (PList (a @ map (\<lambda>c. PStr [c]) b))"
| "py_iadd (PList a) (PDict kv) = Inr (PList (a @ map (\<lambda>(k, v). PStr k) kv))"
| "py_iadd (PList a) v =
     Inl (Exc TypeError (quoted (type_name v) @ '' object is not iterable''))"
| "py_iadd (PInt i) v = num_iadd (PInt i) v"
| "py_iadd (PBool b) v = num_iadd (PBool b) v"
| "py_iadd PNone v = Inl (unsupported_iadd PNone v)"
| "py_iadd (PDict kv) v = Inl (unsupported_iadd (PDict kv) v)"

fun join :: "string \<Rightarrow> string list \<Rightarrow> string" where
  "join sep [] = []"
| "join sep [x] = x"
| "join sep (x # y # rest) = x @ sep @ join sep (y # rest)"

section \<open>Settings\<close>

definition MODEL_NAME :: string where
  "MODEL_NAME = ''mistral:latest''"

definition EMBED_MODEL :: string where
  "EMBED_MODEL = ''nomic-embed-text''"

definition OLLAMA_API :: string where
  "OLLAMA_API = ''http://localhost:11434''"

definition CHUNK_SIZE :: int where
  "CHUNK_SIZE = 5000"

section \<open>External collaborators and the process state\<close>

text \<open>
  The services are parameters of the model. An embedding is a value of a type \<open>'e\<close>
  that the program never inspects. The embeddings endpoint answers a request by
  its position in the request log and its prompt, so that it may fail on one
  request and succeed on the next. An answer is either the exception
  \<open>requests.post\<close> raises or a response: status, reason phrase and what
  \<open>r.json()["embedding"]\<close> evaluates to on its body.

  A line of the generation stream is given by what \<open>line.decode("utf-8")\<close> does
  with it: its text, or the message of the \<open>UnicodeDecodeError\<close>. The stream of
  a response is its lines and the exception, if any, that \<open>iter_lines\<close> raises
  after them. \<open>json.loads\<close> returns a value or the message of its \<open>JSONDecodeError\<close>.
\<close>

datatype 'e embed_reply =
  EmbedFailed py_exc | EmbedResponse nat string "py_exc + 'e"

datatype wire_line = Utf8 string | NotUtf8 string

datatype gen_reply =
  GenFailed py_exc | GenResponse nat string "wire_line list" "py_exc option"

datatype documents_field = DocsAbsent | DocsNone | Docs "string list list"

datatype 'e request =
  EmbeddingsCall string | QueryCall 'e int | GenerateCall string

record 'e env =
  embeddings_endpoint :: "nat \<Rightarrow> string \<Rightarrow> 'e embed_reply"
  collection_query :: "(string \<times> string \<times> 'e) list \<Rightarrow> 'e \<Rightarrow> int \<Rightarrow> py_exc + documents_field"
  generate_endpoint :: "nat \<Rightarrow> string \<Rightarrow> gen_reply"
  json_loads :: "string \<Rightarrow> string + pyval"

text \<open>
  The state: the entries of the collection in insertion order, the requests sent so
  far, and the events given to the progress tracker (an external collaborator that
  records what it is called with).
\<close>

record 'e world =
  collection :: "(string \<times> string \<times> 'e) list"
  requests_log :: "'e request list"
  progress_log :: "(nat \<times> string) list"

definition collection_count :: "'e world \<Rightarrow> nat" where
  "collection_count w = length (collection w)"

definition collection_ids :: "'e world \<Rightarrow> string list" where
  "collection_ids w = map fst (collection w)"

text \<open>\<open>collection.add\<close> of one entry: an id that is already stored is left as it is.\<close>

definition collection_add :: "string \<Rightarrow> string \<Rightarrow> 'e \<Rightarrow> 'e world \<Rightarrow> 'e world" where
  "collection_add chunk_id chunk emb w =
     (if chunk_id \<in> set (collection_ids w) then w
      else w\<lparr>collection := collection w @ [(chunk_id, chunk, emb)]\<rparr>)"

definition progress :: "nat \<Rightarrow> string \<Rightarrow> 'e world \<Rightarrow> 'e world" where
  "progress n desc w = w\<lparr>progress_log := progress_log w @ [(n, desc)]\<rparr>"

text \<open>\<open>r.raise_for_status()\<close>: the exception for a 4xx or 5xx status, if any.\<close>

definition raise_for_status :: "string \<Rightarrow> nat \<Rightarrow> string \<Rightarrow> py_exc option" where
  "raise_for_status url status reason =
     (if 400 \<le> status \<and> status < 500
      then Some (Exc HTTPError (str_nat status @ '' Client Error: '' @ reason @ '' for url: '' @ url))
      else if 500 \<le> status \<and> status < 600
      then Some (Exc HTTPError (str_nat status @ '' Server Error: '' @ reason @ '' for url: '' @ url))
      else None)"

section \<open>Embedding client: \<open>get_embedding\<close>\<close>

definition get_embedding :: "'e env \<Rightarrow> string \<Rightarrow> 'e world \<Rightarrow> (py_exc + 'e) \<times> 'e world" where
  "get_embedding env text w =
     (let w' = w\<lparr>requests_log := requests_log w @ [EmbeddingsCall text]\<rparr> in
      case embeddings_endpoint env (length (requests_log w)) text of
        EmbedFailed e \<Rightarrow> (Inl e, w')
      | EmbedResponse status reason body \<Rightarrow>
          (case raise_for_status (OLLAMA_API @ ''/api/embeddings'') status reason of
             Some e \<Rightarrow> (Inl e, w')
           | None \<Rightarrow> (body, w')))"

section \<open>Indexer: \<open>build_index\<close>\<close>

text \<open>
  The loop of lines 66 to 76 over the chunks from position \<open>idx\<close> on. The first
  component is the value of the \<open>return\<close> inside the loop, or \<open>None\<close> when the loop
  runs to its end.
\<close>

fun index_loop ::
  "'e env \<Rightarrow> string set \<Rightarrow> nat \<Rightarrow> nat \<Rightarrow> string list \<Rightarrow> 'e world \<Rightarrow> string option \<times> 'e world"
where
  "index_loop env existing_ids n_total idx [] w = (None, w)"
| "index_loop env existing_ids n_total idx (chunk # rest) w =
     (let chunk_id = str_nat idx in
      if chunk_id \<in> existing_ids
      then index_loop env existing_ids n_total (Suc idx) rest
             (progress (idx + 1)
                (''Skipping '' @ str_nat (idx + 1) @ ''/'' @ str_nat n_total @ '' (exists)'') w)
      else (case get_embedding env chunk w of
              (Inl e, w1) \<Rightarrow> (Some (''Error getting embedding from Ollama: '' @ exc_str e), w1)
            | (Inr emb, w1) \<Rightarrow>
                index_loop env existing_ids n_total (Suc idx) rest
                  (progress (idx + 1)
                     (''Embedded '' @ str_nat (idx + 1) @ ''/'' @ str_nat n_total)
                     (collection_add chunk_id chunk emb w1))))"

definition existing_ids_of :: "'e world \<Rightarrow> string set" where
  "existing_ids_of w = (if collection_count w > 0 then set (collection_ids w) else {})"

text \<open>
  \<open>build_index\<close> on the contents of \<open>DATA_DIR\<close>: the returned status string, or the
  exception that leaves the function, and the state afterwards.
\<close>

definition build_index :: "'e env \<Rightarrow> directory \<Rightarrow> 'e world \<Rightarrow> (py_exc + string) \<times> 'e world" where
  "build_index env data_dir w =
     (case load_all_chunks data_dir CHUNK_SIZE of
        Inl e \<Rightarrow> (Inl e, w)
      | Inr all_chunks \<Rightarrow>
          (let n_total = length all_chunks in
           if n_total = 0 then (Inr ''No .txt files found in the research_papers folder.'', w)
           else (case index_loop env (existing_ids_of w) n_total 0 all_chunks w of
                   (Some msg, w') \<Rightarrow> (Inr msg, w')
                 | (None, w') \<Rightarrow>
                     (Inr (''Index built/updated. '' @ str_nat (collection_count w')
                           @ '' total vectors stored.''), w'))))"

section \<open>Generation stream: parsing one line\<close>

text \<open>
  Line 134 for one choice dictionary:
  \<open>ch.get("delta", {}).get("content", "") or ch.get("text", "") or ""\<close>.
\<close>

definition choice_content :: "(string \<times> pyval) list \<Rightarrow> py_exc + pyval" where
  "choice_content ch =
     (case dict_get ch ''delta'' (PDict []) of
        PDict d \<Rightarrow>
          (let content = dict_get d ''content'' (PStr []) in
           if truthy content then Inr content
           else (let t = dict_get ch ''text'' (PStr []) in
                 if truthy t then Inr t else Inr (PStr [])))
      | v \<Rightarrow> Inl (Exc AttributeError
                 (quoted (type_name v) @ '' object has no attribute '' @ quoted ''get'')))"

text \<open>The loop of lines 132 to 134.\<close>

fun choices_loop :: "pyval \<Rightarrow> pyval list \<Rightarrow> py_exc + pyval" where
  "choices_loop chunk_text [] = Inr chunk_text"
| "choices_loop chunk_text (PDict ch # rest) =
     (case choice_content ch of
        Inl e \<Rightarrow> Inl e
      | Inr v \<Rightarrow> (case py_iadd chunk_text v of
                    Inl e \<Rightarrow> Inl e
                  | Inr chunk_text' \<Rightarrow> choices_loop chunk_text' rest))"
| "choices_loop chunk_text (ch # rest) = choices_loop chunk_text rest"

text \<open>Lines 126 to 134: the value of \<open>chunk_text\<close> for a parsed payload.\<close>

definition extract_delta :: "pyval \<Rightarrow> py_exc + pyval" where
  "extract_delta payload_chunk =
     (case payload_chunk of
        PDict kv \<Rightarrow>
          (let chunk_text = dict_get kv ''response'' (PStr []) in
           if \<not> truthy chunk_text \<and> map_of kv ''choices'' \<noteq> None
           then (case map_of kv ''choices'' of
                   Some (PList choices) \<Rightarrow>
                     (if choices \<noteq> [] then choices_loop chunk_text choices else Inr chunk_text)
                 | _ \<Rightarrow> Inr chunk_text)
           else Inr chunk_text)
      | _ \<Rightarrow> Inr (PStr []))"

text \<open>
  The body of the inner \<open>try\<close> (lines 118 to 137) for one non-empty line: the
  exception it raises, \<open>None\<close> when nothing is appended, or the delta that is
  appended to the accumulator and yielded with it. Whether \<open>accumulated += chunk_text\<close>
  raises, and with what message, depends on \<open>chunk_text\<close> alone.
\<close>

definition line_body :: "(string \<Rightarrow> string + pyval) \<Rightarrow> wire_line \<Rightarrow> py_exc + string option" where
  "line_body loads line =
     (case line of
        NotUtf8 msg \<Rightarrow> Inl (Exc UnicodeDecodeError msg)
      | Utf8 decoded \<Rightarrow>
          (let text_line = strip decoded;
               json_part = (if startswith text_line ''data:''
                            then strip (drop (length ''data:'') text_line)
                            else text_line)
           in if json_part = ''[DONE]'' \<or> json_part = [] then Inr None
              else (case loads json_part of
                      Inl msg \<Rightarrow> Inl (Exc JSONDecodeError msg)
                    | Inr payload_chunk \<Rightarrow>
                        (case extract_delta payload_chunk of
                           Inl e \<Rightarrow> Inl e
                         | Inr chunk_text \<Rightarrow>
                             (if truthy chunk_text
                              then (case str_iadd [] chunk_text of
                                      Inl e \<Rightarrow> Inl e
                                    | Inr s \<Rightarrow> Inr (Some s))
                              else Inr None)))))"

text \<open>
  Lines 116 to 139 for one line: it is skipped (an empty line, a \<open>continue\<close>, an
  empty delta, or a \<open>JSONDecodeError\<close> caught by the inner handler), it gives a
  delta, or it raises an exception that the inner handler does not catch.
\<close>

datatype line_result = Skip | Delta string | Raise py_exc

definition line_result :: "(string \<Rightarrow> string + pyval) \<Rightarrow> wire_line \<Rightarrow> line_result" where
  "line_result loads line =
     (if line = Utf8 [] then Skip
      else (case line_body loads line of
              Inl e \<Rightarrow> (if exc_class_of e = JSONDecodeError then Skip else Raise e)
            | Inr None \<Rightarrow> Skip
            | Inr (Some s) \<Rightarrow> Delta s))"

text \<open>
  The loop of line 115: the values yielded, and the exception that leaves the loop
  or the accumulator at its end.
\<close>

fun stream_loop ::
  "(string \<Rightarrow> string + pyval) \<Rightarrow> string \<Rightarrow> wire_line list \<Rightarrow> string list \<times> (py_exc + string)"
where
  "stream_loop loads accumulated [] = ([], Inr accumulated)"
| "stream_loop loads accumulated (line # rest) =
     (case line_result loads line of
        Skip \<Rightarrow> stream_loop loads accumulated rest
      | Delta s \<Rightarrow>
          (let (ys, r) = stream_loop loads (accumulated @ s) rest
           in ((accumulated @ s) # ys, r))
      | Raise e \<Rightarrow> ([], Inl e))"

text \<open>The deltas the loop extracts from a stream: those of the lines before the first one that raises.\<close>

fun extracted_deltas :: "(string \<Rightarrow> string + pyval) \<Rightarrow> wire_line list \<Rightarrow> string list" where
  "extracted_deltas loads [] = []"
| "extracted_deltas loads (line # rest) =
     (case line_result loads line of
        Skip \<Rightarrow> extracted_deltas loads rest
      | Delta s \<Rightarrow> s # extracted_deltas loads rest
      | Raise e \<Rightarrow> [])"

section \<open>Query engine: \<open>ask_with_context_stream\<close>\<close>

text \<open>
  The \<open>try\<close> block of lines 111 to 142: the values yielded, and the accumulator when
  control reaches line 144 (\<open>None\<close> after the \<open>return\<close> of the handler).
\<close>

definition generate_try :: "'e env \<Rightarrow> nat \<Rightarrow> string \<Rightarrow> string list \<times> string option" where
  "generate_try env n prompt =
     (case generate_endpoint env n prompt of
        GenFailed e \<Rightarrow> ([''Error calling Ollama generate API: '' @ exc_str e], None)
      | GenResponse status reason lines broken \<Rightarrow>
          (case raise_for_status (OLLAMA_API @ ''/api/generate'') status reason of
             Some e \<Rightarrow> ([''Error calling Ollama generate API: '' @ exc_str e], None)
           | None \<Rightarrow>
               (case stream_loop (json_loads env) [] lines of
                  (ys, Inl e) \<Rightarrow> (ys @ [''Error calling Ollama generate API: '' @ exc_str e], None)
                | (ys, Inr accumulated) \<Rightarrow>
                    (case broken of
                       Some e \<Rightarrow> (ys @ [''Error calling Ollama generate API: '' @ exc_str e], None)
                     | None \<Rightarrow> (ys, Some accumulated)))))"

text \<open>Line 100: \<open>results.get("documents", [[]])[0]\<close>.\<close>

definition first_documents :: "documents_field \<Rightarrow> py_exc + string list" where
  "first_documents f =
     (case f of
        DocsAbsent \<Rightarrow> Inr []
      | DocsNone \<Rightarrow> Inl (Exc TypeError (quoted ''NoneType'' @ '' object is not subscriptable''))
      | Docs [] \<Rightarrow> Inl (Exc IndexError ''list index out of range'')
      | Docs (d # ds) \<Rightarrow> Inr d)"

definition make_prompt :: "string \<Rightarrow> string \<Rightarrow> string" where
  "make_prompt context question =
     ''Use the following research context to answer the question concisely and accurately:''
     @ [CHR 0x0A, CHR 0x0A] @ context @ [CHR 0x0A, CHR 0x0A] @ ''Question: '' @ question
     @ [CHR 0x0A] @ ''Answer:''"

text \<open>
  The generator run to its end: the values it yields, the exception that leaves it
  (if any), and the state afterwards.
\<close>

definition ask_with_context_stream ::
  "'e env \<Rightarrow> string \<Rightarrow> int \<Rightarrow> 'e world \<Rightarrow> (string list \<times> py_exc option) \<times> 'e world"
where
  "ask_with_context_stream env question top_k w =
     (if question = [] \<or> strip question = [] then (([''Please enter a question.''], None), w)
      else (case get_embedding env question w of
              (Inl e, w1) \<Rightarrow> (([''Error getting question embedding: '' @ exc_str e], None), w1)
            | (Inr q_emb, w1) \<Rightarrow>
                (let w2 = w1\<lparr>requests_log := requests_log w1 @ [QueryCall q_emb top_k]\<rparr> in
                 case collection_query env (collection w1) q_emb top_k of
                   Inl e \<Rightarrow> (([''Error querying ChromaDB: '' @ exc_str e], None), w2)
                 | Inr results \<Rightarrow>
                     (case first_documents results of
                        Inl e \<Rightarrow> (([], Some e), w2)
                      | Inr docs \<Rightarrow>
                          (let context = (if docs \<noteq> [] then join [CHR 0x0A, CHR 0x0A] docs else []);
                               prompt = make_prompt context question;
                               w3 = w2\<lparr>requests_log := requests_log w2 @ [GenerateCall prompt]\<rparr>;
                               (ys, fin) = generate_try env (length (requests_log w2)) prompt
                           in ((ys @ (case fin of Some accumulated \<Rightarrow> [accumulated] | None \<Rightarrow> []),
                                None), w3))))))"

section \<open>Auxiliary definitions for the statements\<close>

text \<open>\<open>len(range(0, n, step))\<close> for a positive step.\<close>

definition range_len :: "nat \<Rightarrow> int \<Rightarrow> nat" where
  "range_len n step = nat ((int n + step - 1) div step)"

text \<open>The successive values of the accumulator as the deltas \<open>ds\<close> are appended to it.\<close>

fun accumulations :: "string \<Rightarrow> string list \<Rightarrow> string list" where
  "accumulations accumulated [] = []"
| "accumulations accumulated (d # ds) = (accumulated @ d) # accumulations (accumulated @ d) ds"

text \<open>
  A mocked environment for the examples: \<open>json.loads\<close> on the three payloads the
  examples use, an embedding service that always answers, a store that returns
  its first \<open>top_k\<close> documents, and a generation service with a fixed answer.
\<close>

definition mock_loads :: "string \<Rightarrow> string + pyval" where
  \<open>mock_loads s =
     (if s = ''{"response":"Hel"}'' then Inr (PDict [(''response'', PStr ''Hel'')])
      else if s = ''{"choices":[{"delta":{"content":"lo"}}]}''
      then Inr (PDict [(''choices'', PList [PDict [(''delta'', PDict [(''content'', PStr ''lo'')])]])])
      else if s = ''{"response":" world"}'' then Inr (PDict [(''response'', PStr '' world'')])
      else Inl ''Expecting value: line 1 column 1 (char 0)'')\<close>

definition mock_lines :: "wire_line list" where
  \<open>mock_lines =
     [Utf8 ''{"response":"Hel"}'', Utf8 [],
      Utf8 ''data: {"choices":[{"delta":{"content":"lo"}}]}'', Utf8 ''<html>'',
      Utf8 ''{"response":" world"}'', Utf8 ''data: [DONE]'']\<close>

definition mock_env :: "(nat \<Rightarrow> string \<Rightarrow> nat embed_reply) \<Rightarrow> gen_reply \<Rightarrow> nat env" where
  "mock_env emb_svc gen =
     \<lparr>embeddings_endpoint = emb_svc,
      collection_query =
        (\<lambda>store q_emb top_k. Inr (Docs [map (\<lambda>(i, doc, emb). doc) (take (nat top_k) store)])),
      generate_endpoint = (\<lambda>n prompt. gen),
      json_loads = mock_loads\<rparr>"

definition mock_embed :: "nat \<Rightarrow> string \<Rightarrow> nat embed_reply" where
  "mock_embed n text = EmbedResponse 200 ''OK'' (Inr (length text))"

text \<open>An embedding service that is down for the request number \<open>k\<close> only.\<close>

definition flaky_embed :: "nat \<Rightarrow> nat \<Rightarrow> string \<Rightarrow> nat embed_reply" where
  "flaky_embed k n text =
     (if n = k then EmbedFailed (Exc RequestException ''Connection refused'')
      else EmbedResponse 200 ''OK'' (Inr (length text)))"

definition empty_world :: "nat world" where
  "empty_world = \<lparr>collection = [], requests_log = [], progress_log = []\<rparr>"

definition seeded_world :: "nat world" where
  "seeded_world =
     \<lparr>collection = [(''0'', ''c0'', 2), (''1'', ''c1'', 2), (''2'', ''c2'', 2)],
      requests_log = [], progress_log = []\<rparr>"

definition mock_dir :: directory where
  "mock_dir =
     [(''p3.txt'', Inr ''c3''), (''p0.txt'', Inr '' c0 ''), (''p1.txt'', Inr ''c1''),
      (''blank.txt'', Inr ''  ''), (''p4.txt'', Inr ''c4''), (''notes.md'', Inr ''no''),
      (''p2.txt'', Inr ''c2'')]"

section \<open>The chunker is a partition of the stripped text\<close>

lemma range_up_explicit:
  "0 < step \<Longrightarrow>
   range_up i stop step = map (\<lambda>k. i + int k * step) [0..<nat ((stop - i + step - 1) div step)]"
proof (induction i stop step rule: range_up.induct)
  case (1 i stop step)
  show ?case
  proof (cases "i < stop")
    case True
    have d: "(stop - i + step - 1) div step = (stop - (i + step) + step - 1) div step + 1"
      using 1(2) by (metis add_diff_cancel_right' diff_add_eq div_add_self2 less_irrefl diff_diff_add)
    have nn: "0 \<le> (stop - (i + step) + step - 1) div step"
      using True 1(2) by (simp add: pos_imp_zdiv_nonneg_iff)
    have n: "nat ((stop - i + step - 1) div step) = Suc (nat ((stop - (i + step) + step - 1) div step))"
      using d nn by simp
    have "range_up i stop step = i # range_up (i + step) stop step"
      using True 1(2) by (subst range_up.simps) simp
    also have "\<dots> = i # map (\<lambda>k. i + step + int k * step) [0..<nat ((stop - (i + step) + step - 1) div step)]"
      using 1(1) True 1(2) by simp
    also have "\<dots> = map (\<lambda>k. i + int k * step) [0..<nat ((stop - i + step - 1) div step)]"
      unfolding n upt_conv_Cons[OF zero_less_Suc] 
      by (simp add: map_Suc_upt[symmetric] algebra_simps del: upt_Suc)
    finally show ?thesis .
  next
    case False
    have "(stop - i + step - 1) div step \<le> 0"
    proof (cases "0 \<le> stop - i + step - 1")
      case True
      then show ?thesis using False 1(2) by simp
    next
      case False
      then show ?thesis using 1(2) by (simp add: div_neg_pos_less0 less_imp_le)
    qed
    moreover have "range_up i stop step = []"
      using False by (subst range_up.simps) simp
    ultimately show ?thesis by simp
  qed
qed

lemma py_slice_take_drop:
  "0 \<le> i \<Longrightarrow> 0 < s \<Longrightarrow> py_slice xs i (i + s) = take (nat s) (drop (nat i) xs)"
  by (auto simp: py_slice_def slice_bound_def Let_def min_def nat_add_distrib)


lemma concat_take_drop:
  "concat (map (\<lambda>k. take s (drop (k * s) xs)) [0..<m]) = take (m * s) xs"
proof (induction m)
  case 0
  show ?case by simp
next
  case (Suc m)
  have "take (m * s) xs @ take s (drop (m * s) xs) = take (m * s + s) xs"
    by (simp add: take_add)
  with Suc show ?case by (simp add: add.commute)
qed

lemma file_chunks_explicit:
  assumes "0 < S"
  shows "file_chunks text S =
     Inr (map (\<lambda>k. take (nat S) (drop (k * nat S) text))
            [0..<nat ((int (length text) + S - 1) div S)])"
proof -
  have "map (\<lambda>i. py_slice text i (i + S)) (map (\<lambda>k. 0 + int k * S) [0..<m])
      = map (\<lambda>k. take (nat S) (drop (k * nat S) text)) [0..<m]" for m
    using assms by (simp add: py_slice_take_drop nat_mult_distrib)
  then show ?thesis
    using assms by (simp add: file_chunks_def py_range_def range_up_explicit)
qed


lemma range_len_nat:
  "0 < S \<Longrightarrow> range_len n S = (n + nat S - 1) div nat S"
proof -
  assume S: "0 < S"
  have "int n + S - 1 = int (n + nat S - 1)" using S by auto
  then have "(int n + S - 1) div S = int ((n + nat S - 1) div nat S)"
    using S by (simp add: zdiv_int)
  then show ?thesis by (simp add: range_len_def)
qed

lemma range_len_covers:
  assumes "0 < S" shows "n \<le> range_len n S * nat S"
proof -
  define s where "s = nat S"
  have s: "0 < s" using assms by (simp add: s_def)
  define q where "q = (n + s - 1) div s"
  have "n + s - 1 = q * s + (n + s - 1) mod s" by (simp add: q_def)
  moreover have "(n + s - 1) mod s < s" using s by simp
  ultimately have "n \<le> q * s" by linarith
  then show ?thesis using assms by (simp add: range_len_nat q_def s_def)
qed

lemma range_len_start:
  assumes "0 < S" "k < range_len n S" shows "k * nat S < n"
proof -
  define s where "s = nat S"
  have s: "0 < s" using assms by (simp add: s_def)
  define q where "q = (n + s - 1) div s"
  have kq: "Suc k \<le> q" using assms by (simp add: range_len_nat q_def s_def)
  have "q * s \<le> n + s - 1" by (simp add: q_def)
  moreover have "Suc k * s \<le> q * s" using kq by (rule mult_le_mono1)
  ultimately have "k * s + s \<le> n + s - 1" by simp
  then show ?thesis using s by (simp add: s_def)
qed

lemma range_len_ceiling:
  "0 < S \<Longrightarrow> int (range_len n S) = \<lceil>real n / real_of_int S\<rceil>"
proof -
  assume S: "0 < S"
  define m where "m = range_len n S"
  have up: "real n \<le> real m * real_of_int S"
  proof -
    have "n \<le> m * nat S" unfolding m_def by (rule range_len_covers [OF S])
    then have "real n \<le> real (m * nat S)" by (rule of_nat_mono)
    then show ?thesis using S by simp
  qed
  have lo: "(real m - 1) * real_of_int S < real n"
  proof (cases m)
    case 0
    then show ?thesis using S up by (cases "n = 0") (simp_all add: m_def)
  next
    case (Suc k)
    then have "k * nat S < n" using range_len_start [OF S, of k n] by (simp add: m_def)
    then have "real (k * nat S) < real n" by (simp only: of_nat_less_iff)
    then show ?thesis using S Suc by simp
  qed
  have "\<lceil>real n / real_of_int S\<rceil> = int m"
  proof (rule ceiling_unique)
    show "of_int (int m) - 1 < real n / real_of_int S"
      using lo S by (simp add: pos_less_divide_eq)
    show "real n / real_of_int S \<le> of_int (int m)"
      using up S by (simp add: pos_divide_le_eq)
  qed
  then show ?thesis by (simp add: m_def)
qed


lemma file_chunks_nonempty:
  assumes "0 < S" "file_chunks text S = Inr cs" shows "\<forall>c\<in>set cs. c \<noteq> []"
proof -
  have cs: "cs = map (\<lambda>k. take (nat S) (drop (k * nat S) text)) [0..<range_len (length text) S]"
    using assms by (simp add: file_chunks_explicit range_len_def)
  show ?thesis
  proof
    fix c assume "c \<in> set cs"
    then obtain k where k: "k < range_len (length text) S"
      and c: "c = take (nat S) (drop (k * nat S) text)"
      unfolding cs by auto
    have "k * nat S < length text" using assms(1) k by (rule range_len_start)
    then show "c \<noteq> []" using assms(1) c by simp
  qed
qed

lemma load_files_nonempty:
  assumes "0 < S"
  shows "\<forall>c\<in>set acc. c \<noteq> [] \<Longrightarrow> load_files files S acc = Inr cs \<Longrightarrow> \<forall>c\<in>set cs. c \<noteq> []"
proof (induction files arbitrary: acc)
  case Nil
  then show ?case by simp
next
  case (Cons f files)
  obtain name content where f: "f = (name, content)" by (cases f)
  show ?case
  proof (cases content)
    case (Inl e)
    with Cons.prems f show ?thesis by simp
  next
    case (Inr raw)
    show ?thesis
    proof (cases "strip raw = []")
      case True
      with Cons f Inr show ?thesis by simp
    next
      case False
      then obtain fc where fc: "file_chunks (strip raw) S = Inr fc"
        and rest: "load_files files S (acc @ fc) = Inr cs"
        using Cons.prems(2) f Inr by (auto simp: Let_def split: sum.splits)
      have "\<forall>c\<in>set (acc @ fc). c \<noteq> []"
        using Cons.prems(1) file_chunks_nonempty [OF assms fc] by auto
      then show ?thesis using rest by (rule Cons.IH)
    qed
  qed
qed

lemma load_files_total:
  assumes "0 < S"
  shows "\<forall>f\<in>set files. \<exists>raw. snd f = Inr raw \<Longrightarrow> \<exists>cs. load_files files S acc = Inr cs"
proof (induction files arbitrary: acc)
  case Nil
  then show ?case by simp
next
  case (Cons f files)
  obtain name raw where f: "f = (name, Inr raw)" using Cons.prems by (cases f) auto
  have rest: "\<exists>cs. load_files files S acc' = Inr cs" for acc'
    using Cons.prems by (intro Cons.IH) simp
  show ?case
    using rest assms by (simp add: f Let_def file_chunks_explicit)
qed

text \<open>
  Claim C10. For every document directory and every chunk size greater than zero,
  every chunk in the list that \<open>load_all_chunks\<close> returns is non-empty: a file that
  is empty after stripping adds nothing, and no slice of a non-empty text is empty.
\<close>

theorem load_all_chunks_nonempty:
  assumes "0 < S" and "load_all_chunks data_dir S = Inr cs"
  shows "\<forall>c\<in>set cs. c \<noteq> []"
  using load_files_nonempty [OF assms(1), of "[]"] assms(2)
  by (simp add: load_all_chunks_def)

lemma load_all_chunks_total:
  assumes "0 < S" and "\<forall>f\<in>set data_dir. \<exists>raw. snd f = Inr raw"
  shows "\<exists>cs. load_all_chunks data_dir S = Inr cs"
  unfolding load_all_chunks_def
  by (rule load_files_total [OF assms(1)]) (use assms(2) in \<open>auto simp: glob_txt_def\<close>)

text \<open>
  Claim C4. For a text file with contents \<open>raw\<close> and a chunk size \<open>S > 0\<close>, with
  \<open>T = strip raw\<close>: the chunks are the successive slices of \<open>T\<close> of width \<open>S\<close>
  (contiguous, non-overlapping, in order), their concatenation is \<open>T\<close>, none is
  longer than \<open>S\<close>, all but the last have length \<open>S\<close>, and there are
  \<open>ceil(len(T) / S)\<close> of them.
\<close>

theorem load_all_chunks_single_file:
  assumes "0 < S" and "endswith name ''.txt''"
  shows "\<exists>cs. load_all_chunks [(name, Inr raw)] S = Inr cs
     \<and> concat cs = strip raw
     \<and> (\<forall>k<length cs. cs ! k = take (nat S) (drop (k * nat S) (strip raw)))
     \<and> (\<forall>c\<in>set cs. length c \<le> nat S)
     \<and> (\<forall>k. Suc k < length cs \<longrightarrow> length (cs ! k) = nat S)
     \<and> int (length cs) = \<lceil>real (length (strip raw)) / real_of_int S\<rceil>"
proof -
  define T where "T = strip raw"
  define m where "m = range_len (length T) S"
  define cs where "cs = map (\<lambda>k. take (nat S) (drop (k * nat S) T)) [0..<m]"
  have fc: "file_chunks T S = Inr cs"
    using assms(1) by (simp add: file_chunks_explicit cs_def m_def range_len_def)
  have m0: "T = [] \<Longrightarrow> m = 0"
    using assms(1) by (simp add: m_def range_len_def)
  have run: "load_all_chunks [(name, Inr raw)] S = Inr cs"
    using assms(2) fc m0 by (simp add: load_all_chunks_def glob_txt_def Let_def T_def [symmetric] cs_def)
  have cat: "concat cs = T"
    using range_len_covers [OF assms(1), of "length T"]
    by (simp add: cs_def concat_take_drop m_def)
  have nth: "\<forall>k<length cs. cs ! k = take (nat S) (drop (k * nat S) T)"
    by (simp add: cs_def)
  have le: "\<forall>c\<in>set cs. length c \<le> nat S"
    by (auto simp: cs_def)
  have full: "length (cs ! k) = nat S" if "Suc k < length cs" for k
  proof -
    have "Suc k < range_len (length T) S" using that by (simp add: cs_def m_def)
    then have "Suc k * nat S < length T" by (rule range_len_start [OF assms(1)])
    then show ?thesis using that by (simp add: cs_def)
  qed
  have cnt: "int (length cs) = \<lceil>real (length T) / real_of_int S\<rceil>"
    using range_len_ceiling [OF assms(1), of "length T"] by (simp add: cs_def m_def)
  show ?thesis
    using run cat nth le full cnt unfolding T_def by blast
qed

theorem load_all_chunks_single_file_witness:
  "(0::int) < 3 \<and> endswith ''a.txt'' ''.txt''
   \<and> load_all_chunks [(''a.txt'', Inr ''  abcdefg '')] 3 = Inr [''abc'', ''def'', ''g'']"
proof -
  have h1: "(0::int) < 3" by simp
  have h2: "endswith ''a.txt'' ''.txt''" by (simp add: endswith_def)
  have s: "strip ''  abcdefg '' = ''abcdefg''" by (simp add: strip_def isspace_def)
  have c: "\<lceil>real 7 / real_of_int 3\<rceil> = 3" by (simp add: ceiling_eq_iff)
  obtain cs where run: "load_all_chunks [(''a.txt'', Inr ''  abcdefg '')] 3 = Inr cs"
    and nth: "\<forall>k<length cs. cs ! k = take (nat 3) (drop (k * nat 3) ''abcdefg'')"
    and len: "int (length cs) = 3"
    using load_all_chunks_single_file [OF h1 h2, of "''  abcdefg ''"] c unfolding s by auto
  have l: "length cs = 3" using len by simp
  obtain a b c where abc: "cs = [a, b, c]"
    using l by (auto simp: length_Suc_conv numeral_3_eq_3)
  have "cs ! 0 = ''abc''" "cs ! 1 = ''def''" "cs ! 2 = ''g''"
    using nth l by simp_all
  then have "cs = [''abc'', ''def'', ''g'']"
    unfolding abc by simp
  then show ?thesis using h1 h2 run by simp
qed

theorem load_all_chunks_nonempty_witness:
  "(0::int) < 2 \<and> load_all_chunks [(''b.txt'', Inr ''xyz''), (''a.txt'', Inr ''   '')] 2 = Inr [''xy'', ''z'']
   \<and> ''xy'' \<noteq> [] \<and> ''z'' \<noteq> []"
proof -
  have h1: "(0::int) < 2" by simp
  have r: "range_up 0 3 2 = [0, 2]"
    by (simp add: range_up.simps)
  have h2: "load_all_chunks [(''b.txt'', Inr ''xyz''), (''a.txt'', Inr ''   '')] 2 = Inr [''xy'', ''z'']"
    by (simp add: load_all_chunks_def glob_txt_def endswith_def strip_def isspace_def
        file_chunks_def py_range_def r py_slice_def slice_bound_def less_eq_char_def less_char_def)
  show ?thesis using h1 h2 load_all_chunks_nonempty [OF h1 h2] by simp
qed


section \<open>The streaming query\<close>

lemma strip_blank: "(\<forall>c\<in>set s. isspace c) \<Longrightarrow> strip s = []"
proof -
  assume "\<forall>c\<in>set s. isspace c"
  then have d: "dropWhile isspace s = []" by simp
  show ?thesis unfolding strip_def d by simp
qed


lemma stream_loop_yields:
  "fst (stream_loop loads acc lines) = accumulations acc (extracted_deltas loads lines)"
  by (induction lines arbitrary: acc) (simp_all add: split_beta split: line_result.splits)


text \<open>
  Claim C6. For every \<open>top_k\<close>, a question that is empty or consists of whitespace
  only yields the single value \<open>Please enter a question.\<close> and leaves the state as
  it was: no request is sent to the embedding, index or generation service.
\<close>

theorem ask_empty_question:
  assumes "\<forall>c\<in>set question. isspace c"
  shows "ask_with_context_stream env question top_k w = (([''Please enter a question.''], None), w)"
  using assms by (simp add: ask_with_context_stream_def strip_blank)


lemma unparseable_line_skipped:
  assumes "loads (strip decoded) = Inl m" "\<not> startswith (strip decoded) ''data:''"
  shows "line_result loads (Utf8 decoded) = Skip"
  using assms by (auto simp: line_result_def line_body_def Let_def)

text \<open>
  Claim C7. When the generation service answers with a 4xx or 5xx status, the
  generator yields exactly one value, the error message for that status, and
  ends without a final accumulator.
\<close>

theorem generate_error_status:
  assumes q: "strip question \<noteq> []"
    and emb: "get_embedding env question w = (Inr q_emb, w1)"
    and qry: "collection_query env (collection w1) q_emb top_k = Inr results"
    and docs: "first_documents results = Inr docs"
    and gen: "generate_endpoint env (Suc (length (requests_log w1)))
                (make_prompt (if docs \<noteq> [] then join [CHR 0x0A, CHR 0x0A] docs else []) question)
              = GenResponse status reason lines broken"
    and st: "400 \<le> status" "status < 600"
  shows "\<exists>e. raise_for_status (OLLAMA_API @ ''/api/generate'') status reason = Some e
           \<and> fst (ask_with_context_stream env question top_k w)
               = ([''Error calling Ollama generate API: '' @ exc_str e], None)"
proof -
  obtain e where e: "raise_for_status (OLLAMA_API @ ''/api/generate'') status reason = Some e"
    using st by (cases "status < 500") (simp_all add: raise_for_status_def)
  have qn: "question \<noteq> []" using q by (auto simp: strip_def)
  have "generate_try env (Suc (length (requests_log w1)))
          (make_prompt (if docs \<noteq> [] then join [CHR 0x0A, CHR 0x0A] docs else []) question)
        = ([''Error calling Ollama generate API: '' @ exc_str e], None)"
    using gen e by (simp add: generate_try_def)
  then have "fst (ask_with_context_stream env question top_k w)
               = ([''Error calling Ollama generate API: '' @ exc_str e], None)"
    using q qn emb qry docs by (simp add: ask_with_context_stream_def Let_def)
  with e show ?thesis by blast
qed


lemma choice_content_typed:
  assumes "dict_get ckv ''delta'' (PDict []) = PDict d"
    and "dict_get d ''content'' (PStr []) = PStr c"
    and "dict_get ckv ''text'' (PStr []) = PStr t"
  shows "choice_content ckv = Inr (PStr (if c \<noteq> [] then c else t))"
  using assms by (simp add: choice_content_def)

lemma choices_loop_typed:
  assumes "list_all2 (\<lambda>ch (c, t). \<exists>ckv d. ch = PDict ckv
              \<and> dict_get ckv ''delta'' (PDict []) = PDict d
              \<and> dict_get d ''content'' (PStr []) = PStr c
              \<and> dict_get ckv ''text'' (PStr []) = PStr t) choices cts"
  shows "choices_loop (PStr a) choices
       = Inr (PStr (a @ concat (map (\<lambda>(c, t). if c \<noteq> [] then c else t) cts)))"
  using assms
proof (induction choices cts arbitrary: a rule: list_all2_induct)
  case Nil
  show ?case by simp
next
  case (Cons ch choices ct cts)
  obtain c t where ct: "ct = (c, t)" by (cases ct)
  from Cons.hyps(1) obtain ckv d where ch: "ch = PDict ckv"
    and d: "dict_get ckv ''delta'' (PDict []) = PDict d"
    and c: "dict_get d ''content'' (PStr []) = PStr c"
    and t: "dict_get ckv ''text'' (PStr []) = PStr t"
    unfolding ct by auto
  have "choices_loop (PStr a) (ch # choices)
        = choices_loop (PStr (a @ (if c \<noteq> [] then c else t))) choices"
    unfolding ch by (simp add: choice_content_typed [OF d c t])
  then show ?case using Cons.IH [of "a @ (if c \<noteq> [] then c else t)"] by (simp add: ct)
qed

text \<open>
  Claim C9. For a dictionary payload whose \<open>response\<close> field is non-empty, the delta
  is that field, whatever \<open>choices\<close> holds. When \<open>response\<close> is absent or the empty
  string and \<open>choices\<close> is a list of choice dictionaries, the delta is the
  concatenation over the choices of the nested \<open>delta.content\<close> if it is non-empty
  and of \<open>text\<close> otherwise.
\<close>

theorem extract_delta_shapes:
  "(truthy (dict_get kv ''response'' (PStr []))
      \<longrightarrow> extract_delta (PDict kv) = Inr (dict_get kv ''response'' (PStr [])))
   \<and> (dict_get kv ''response'' (PStr []) = PStr []
        \<and> map_of kv ''choices'' = Some (PList choices)
        \<and> list_all2 (\<lambda>ch (c, t). \<exists>ckv d. ch = PDict ckv
              \<and> dict_get ckv ''delta'' (PDict []) = PDict d
              \<and> dict_get d ''content'' (PStr []) = PStr c
              \<and> dict_get ckv ''text'' (PStr []) = PStr t) choices cts
      \<longrightarrow> extract_delta (PDict kv)
            = Inr (PStr (concat (map (\<lambda>(c, t). if c \<noteq> [] then c else t) cts))))"
proof (intro conjI impI)
  assume "truthy (dict_get kv ''response'' (PStr []))"
  then show "extract_delta (PDict kv) = Inr (dict_get kv ''response'' (PStr []))"
    by (simp add: extract_delta_def)
next
  assume a: "dict_get kv ''response'' (PStr []) = PStr []
        \<and> map_of kv ''choices'' = Some (PList choices)
        \<and> list_all2 (\<lambda>ch (c, t). \<exists>ckv d. ch = PDict ckv
              \<and> dict_get ckv ''delta'' (PDict []) = PDict d
              \<and> dict_get d ''content'' (PStr []) = PStr c
              \<and> dict_get ckv ''text'' (PStr []) = PStr t) choices cts"
  then have l: "choices_loop (PStr []) choices
       = Inr (PStr (concat (map (\<lambda>(c, t). if c \<noteq> [] then c else t) cts)))"
    using choices_loop_typed [of choices cts "[]"] by simp
  have e: "choices = [] \<Longrightarrow> cts = []" using a by auto
  show "extract_delta (PDict kv)
            = Inr (PStr (concat (map (\<lambda>(c, t). if c \<noteq> [] then c else t) cts)))"
    using a l e by (cases "choices = []") (simp_all add: extract_delta_def Let_def)
qed

theorem extract_delta_shapes_witness:
  "extract_delta (PDict [(''response'', PStr ''Hi''),
                         (''choices'', PList [PDict [(''text'', PStr ''ignored'')]])])
     = Inr (PStr ''Hi'')
   \<and> extract_delta (PDict [(''choices'',
         PList [PDict [(''delta'', PDict [(''content'', PStr ''a'')]), (''text'', PStr ''x'')],
                PDict [(''text'', PStr ''b'')]])])
     = Inr (PStr ''ab'')"
proof -
  have 1: "extract_delta (PDict [(''response'', PStr ''Hi''),
                         (''choices'', PList [PDict [(''text'', PStr ''ignored'')]])])
     = Inr (PStr ''Hi'')"
    using extract_delta_shapes [of "[(''response'', PStr ''Hi''),
                         (''choices'', PList [PDict [(''text'', PStr ''ignored'')]])]"]
    by (simp add: dict_get_def)
  have 2: "extract_delta (PDict [(''choices'',
         PList [PDict [(''delta'', PDict [(''content'', PStr ''a'')]), (''text'', PStr ''x'')],
                PDict [(''text'', PStr ''b'')]])])
     = Inr (PStr ''ab'')"
    using extract_delta_shapes [of "[(''choices'',
         PList [PDict [(''delta'', PDict [(''content'', PStr ''a'')]), (''text'', PStr ''x'')],
                PDict [(''text'', PStr ''b'')]])]"
         "[PDict [(''delta'', PDict [(''content'', PStr ''a'')]), (''text'', PStr ''x'')],
                PDict [(''text'', PStr ''b'')]]" "[(''a'', ''x''), ([], ''b'')]"]
    by (simp add: dict_get_def)
  show ?thesis using 1 2 by simp
qed




theorem ask_empty_question_witness:
  "ask_with_context_stream (mock_env mock_embed (GenResponse 200 ''OK'' mock_lines None))
     [CHR '' '', CHR 0x09, CHR 0x0A] 3 empty_world
   = (([''Please enter a question.''], None), empty_world)"
  using ask_empty_question [of "[CHR '' '', CHR 0x09, CHR 0x0A]"
      "mock_env mock_embed (GenResponse 200 ''OK'' mock_lines None)" 3 empty_world]
  by (simp add: isspace_def)


text \<open>
  After the loop has read the whole stream without an exception, the accumulator is
  the concatenation of the deltas, and line 144 yields it once more.
\<close>

lemma stream_loop_final:
  "\<forall>l\<in>set lines. \<forall>e. line_result loads l \<noteq> Raise e \<Longrightarrow>
   snd (stream_loop loads acc lines) = Inr (acc @ concat (extracted_deltas loads lines))"
proof (induction lines arbitrary: acc)
  case Nil
  show ?case by simp
next
  case (Cons l lines)
  then show ?case
    by (cases "line_result loads l") (simp_all add: split_beta)
qed

lemma generate_try_completes:
  assumes "generate_endpoint env n prompt = GenResponse status reason lines None"
    and "raise_for_status (OLLAMA_API @ ''/api/generate'') status reason = None"
    and "\<forall>l\<in>set lines. \<forall>e. line_result (json_loads env) l \<noteq> Raise e"
  shows "generate_try env n prompt
       = (accumulations [] (extracted_deltas (json_loads env) lines),
          Some (concat (extracted_deltas (json_loads env) lines)))"
proof -
  obtain ys r where s: "stream_loop (json_loads env) [] lines = (ys, r)"
    by (cases "stream_loop (json_loads env) [] lines")
  have "ys = accumulations [] (extracted_deltas (json_loads env) lines)"
    using stream_loop_yields [of "json_loads env" "[]" lines] s by simp
  moreover have "r = Inr (concat (extracted_deltas (json_loads env) lines))"
    using stream_loop_final [OF assms(3), of "[]"] s by simp
  ultimately show ?thesis using assms(1,2) s by (simp add: generate_try_def)
qed




section \<open>The index build\<close>

lemma digit_char_inj:
  "a < 10 \<Longrightarrow> b < 10 \<Longrightarrow> digit_char a = digit_char b \<Longrightarrow> a = b"
  by (simp add: digit_char_def char_of_eq_iff take_bit_eq_mod)

lemma str_nat_small: "n < 10 \<Longrightarrow> str_nat n = [digit_char n]"
  by (subst str_nat.simps) simp

lemma str_nat_large: "\<not> n < 10 \<Longrightarrow> str_nat n = str_nat (n div 10) @ [digit_char (n mod 10)]"
  by (subst str_nat.simps) simp

lemma str_nat_nonempty: "str_nat n \<noteq> []"
  by (cases "n < 10") (simp_all add: str_nat_small str_nat_large)

lemma str_nat_inj: "str_nat m = str_nat n \<Longrightarrow> m = n"
proof (induction m arbitrary: n rule: str_nat.induct)
  case (1 m)
  show ?case
  proof (cases "m < 10")
    case True
    show ?thesis
    proof (cases "n < 10")
      case n: True
      with True 1(2) show ?thesis by (simp add: str_nat_small digit_char_inj)
    next
      case False
      with True 1(2) show ?thesis
        using str_nat_nonempty [of "n div 10"] by (simp add: str_nat_small str_nat_large)
    qed
  next
    case False
    show ?thesis
    proof (cases "n < 10")
      case True
      with False 1(2) show ?thesis
        using str_nat_nonempty [of "m div 10"] by (simp add: str_nat_small str_nat_large)
    next
      case n: False
      have "str_nat (m div 10) = str_nat (n div 10)" "digit_char (m mod 10) = digit_char (n mod 10)"
        using False n 1(2) by (simp_all add: str_nat_large)
      then have "m div 10 = n div 10" "m mod 10 = n mod 10"
        using 1(1) [OF False] by (simp_all add: digit_char_inj)
      then show ?thesis by (metis div_mult_mod_eq)
    qed
  qed
qed

lemma existing_ids_of_eq: "existing_ids_of w = set (collection_ids w)"
  by (simp add: existing_ids_of_def collection_count_def collection_ids_def)

lemma get_embedding_log:
  "get_embedding env text w = (r, w1) \<Longrightarrow>
   w1 = w\<lparr>requests_log := requests_log w @ [EmbeddingsCall text]\<rparr>"
  by (auto simp: get_embedding_def Let_def split: embed_reply.splits option.splits)

text \<open>A loop over chunks whose ids are all in the snapshot only reports progress.\<close>

lemma index_loop_all_existing:
  "\<forall>j<length chunks. str_nat (idx + j) \<in> E \<Longrightarrow>
   \<exists>w'. index_loop env E n_total idx chunks w = (None, w')
        \<and> collection w' = collection w \<and> requests_log w' = requests_log w"
proof (induction chunks arbitrary: idx w)
  case Nil
  show ?case by simp
next
  case (Cons c chunks)
  have here: "str_nat idx \<in> E" using Cons.prems by force
  have rest: "\<forall>j<length chunks. str_nat (Suc idx + j) \<in> E"
    using Cons.prems by force
  let ?w1 = "progress (idx + 1)
              (''Skipping '' @ str_nat (idx + 1) @ ''/'' @ str_nat n_total @ '' (exists)'') w"
  from Cons.IH [OF rest, of ?w1] obtain w'
    where "index_loop env E n_total (Suc idx) chunks ?w1 = (None, w')"
      and "collection w' = collection ?w1" and "requests_log w' = requests_log ?w1"
    by blast
  then show ?case using here by (simp add: progress_def)
qed

text \<open>After a loop that ran to its end, every id of its chunks is stored or was in the snapshot.\<close>

lemma collection_add_ids:
  "set (collection_ids (collection_add i c e w)) = insert i (set (collection_ids w))"
  by (auto simp: collection_add_def collection_ids_def)

lemma index_loop_ids:
  "index_loop env E n_total idx chunks w = (None, w') \<Longrightarrow>
   set (collection_ids w) \<subseteq> set (collection_ids w')
   \<and> (\<forall>j<length chunks. str_nat (idx + j) \<in> E \<union> set (collection_ids w'))"
proof (induction chunks arbitrary: idx w)
  case Nil
  then show ?case by simp
next
  case (Cons c chunks)
  show ?case
  proof (cases "str_nat idx \<in> E")
    case True
    let ?w1 = "progress (idx + 1)
                (''Skipping '' @ str_nat (idx + 1) @ ''/'' @ str_nat n_total @ '' (exists)'') w"
    have "index_loop env E n_total (Suc idx) chunks ?w1 = (None, w')"
      using Cons.prems True by simp
    from Cons.IH [OF this] have sub: "set (collection_ids w) \<subseteq> set (collection_ids w')"
      and all: "\<forall>j<length chunks. str_nat (Suc idx + j) \<in> E \<union> set (collection_ids w')"
      by (simp_all add: progress_def collection_ids_def)
    have "str_nat (idx + j) \<in> E \<union> set (collection_ids w')" if "j < length (c # chunks)" for j
      using that True all by (cases j) auto
    with sub show ?thesis by blast
  next
    case False
    obtain r w1 where g: "get_embedding env c w = (r, w1)" by (cases "get_embedding env c w")
    then obtain emb where r: "r = Inr emb"
      using Cons.prems False by (cases r) auto
    let ?w2 = "progress (idx + 1) (''Embedded '' @ str_nat (idx + 1) @ ''/'' @ str_nat n_total)
                 (collection_add (str_nat idx) c emb w1)"
    have "index_loop env E n_total (Suc idx) chunks ?w2 = (None, w')"
      using Cons.prems False g r by simp
    from Cons.IH [OF this] have sub: "set (collection_ids ?w2) \<subseteq> set (collection_ids w')"
      and all: "\<forall>j<length chunks. str_nat (Suc idx + j) \<in> E \<union> set (collection_ids w')"
      by simp_all
    have w2: "set (collection_ids ?w2) = insert (str_nat idx) (set (collection_ids w))"
      using get_embedding_log [OF g] collection_add_ids [of "str_nat idx" c emb w1]
      by (simp add: progress_def collection_ids_def)
    have "str_nat (idx + j) \<in> E \<union> set (collection_ids w')" if "j < length (c # chunks)" for j
      using that all sub w2 by (cases j) auto
    with sub w2 show ?thesis by blast
  qed
qed


lemma index_loop_message:
  "index_loop env E n_total idx chunks w = (Some msg, w') \<Longrightarrow>
   \<exists>m. msg = ''Error getting embedding from Ollama: '' @ m"
proof (induction chunks arbitrary: idx w)
  case Nil
  then show ?case by simp
next
  case (Cons c chunks)
  show ?case
  proof (cases "str_nat idx \<in> E")
    case True
    then show ?thesis using Cons by simp
  next
    case False
    obtain r w1 where g: "get_embedding env c w = (r, w1)" by (cases "get_embedding env c w")
    show ?thesis
    proof (cases r)
      case (Inl e)
      then show ?thesis using Cons.prems False g by auto
    next
      case (Inr emb)
      then show ?thesis using Cons.prems False g Cons.IH by simp
    qed
  qed
qed

lemma index_loop_append:
  "index_loop env E n_total idx (pre @ rest) w =
     (case index_loop env E n_total idx pre w of
        (Some msg, w') \<Rightarrow> (Some msg, w')
      | (None, w') \<Rightarrow> index_loop env E n_total (idx + length pre) rest w')"
proof (induction pre arbitrary: idx w)
  case Nil
  show ?case by simp
next
  case (Cons c pre)
  show ?case
  proof (cases "str_nat idx \<in> E")
    case True
    then show ?thesis using Cons.IH by (simp split: prod.split option.split)
  next
    case False
    obtain r w1 where g: "get_embedding env c w = (r, w1)" by (cases "get_embedding env c w")
    show ?thesis using False g Cons.IH by (cases r) (simp_all split: prod.split option.split)
  qed
qed

lemma collection_add_mono: "set (collection w) \<subseteq> set (collection (collection_add i c e w))"
  by (auto simp: collection_add_def)

lemma index_loop_mono:
  "index_loop env E n_total idx chunks w = (r, w') \<Longrightarrow> set (collection w) \<subseteq> set (collection w')"
proof (induction chunks arbitrary: idx w)
  case Nil
  then show ?case by simp
next
  case (Cons c chunks)
  show ?case
  proof (cases "str_nat idx \<in> E")
    case True
    then show ?thesis using Cons.prems Cons.IH by (fastforce simp: progress_def)
  next
    case False
    obtain q w1 where g: "get_embedding env c w = (q, w1)" by (cases "get_embedding env c w")
    have w1: "collection w1 = collection w" using get_embedding_log [OF g] by simp
    show ?thesis
    proof (cases q)
      case (Inl e)
      then show ?thesis using Cons.prems False g w1 by auto
    next
      case (Inr emb)
      let ?w2 = "progress (idx + 1) (''Embedded '' @ str_nat (idx + 1) @ ''/'' @ str_nat n_total)
                 (collection_add (str_nat idx) c emb w1)"
      have "index_loop env E n_total (Suc idx) chunks ?w2 = (r, w')"
        using Cons.prems False g Inr by simp
      then have "set (collection ?w2) \<subseteq> set (collection w')" by (rule Cons.IH)
      moreover have "set (collection w) \<subseteq> set (collection ?w2)"
        using collection_add_mono [of w1 "str_nat idx" c emb] w1 by (simp add: progress_def)
      ultimately show ?thesis by blast
    qed
  qed
qed

lemma index_loop_upserted:
  assumes "set (collection_ids w) \<subseteq> E \<union> str_nat ` {..<idx}"
    and "index_loop env E n_total idx pre w = (None, w1)"
  shows "\<forall>j<length pre. str_nat (idx + j) \<notin> E \<longrightarrow>
           (\<exists>emb. (str_nat (idx + j), pre ! j, emb) \<in> set (collection w1))"
  using assms
proof (induction pre arbitrary: idx w)
  case Nil
  then show ?case by simp
next
  case (Cons c pre)
  show ?case
  proof (cases "str_nat idx \<in> E")
    case True
    let ?w1 = "progress (idx + 1)
                (''Skipping '' @ str_nat (idx + 1) @ ''/'' @ str_nat n_total @ '' (exists)'') w"
    have inv: "set (collection_ids ?w1) \<subseteq> E \<union> str_nat ` {..<Suc idx}"
      using Cons.prems(1) by (auto simp: progress_def collection_ids_def lessThan_Suc)
    have run: "index_loop env E n_total (Suc idx) pre ?w1 = (None, w1)"
      using Cons.prems(2) True by simp
    have ih: "\<forall>j<length pre. str_nat (Suc idx + j) \<notin> E \<longrightarrow>
           (\<exists>emb. (str_nat (Suc idx + j), pre ! j, emb) \<in> set (collection w1))"
      using Cons.IH [OF inv run] .
    show ?thesis
    proof (intro allI impI)
      fix j assume j: "j < length (c # pre)" and n: "str_nat (idx + j) \<notin> E"
      show "\<exists>emb. (str_nat (idx + j), (c # pre) ! j, emb) \<in> set (collection w1)"
        using j n True ih by (cases j) auto
    qed
  next
    case False
    obtain q w' where g: "get_embedding env c w = (q, w')" by (cases "get_embedding env c w")
    have w': "collection w' = collection w" using get_embedding_log [OF g] by simp
    obtain emb where q: "q = Inr emb" using Cons.prems(2) False g by (cases q) auto
    let ?w2 = "progress (idx + 1) (''Embedded '' @ str_nat (idx + 1) @ ''/'' @ str_nat n_total)
                 (collection_add (str_nat idx) c emb w')"
    have fresh: "str_nat idx \<notin> set (collection_ids w')"
    proof
      assume "str_nat idx \<in> set (collection_ids w')"
      then have "str_nat idx \<in> E \<union> str_nat ` {..<idx}"
        using Cons.prems(1) w' by (auto simp: collection_ids_def)
      then obtain k where "k < idx" "str_nat idx = str_nat k" using False by auto
      then show False using str_nat_inj by blast
    qed
    have c2: "collection ?w2 = collection w @ [(str_nat idx, c, emb)]"
      using fresh w' by (simp add: progress_def collection_add_def)
    have inv: "set (collection_ids ?w2) \<subseteq> E \<union> str_nat ` {..<Suc idx}"
      using Cons.prems(1) c2 by (auto simp: collection_ids_def lessThan_Suc)
    have run: "index_loop env E n_total (Suc idx) pre ?w2 = (None, w1)"
      using Cons.prems(2) False g q by simp
    have ih: "\<forall>j<length pre. str_nat (Suc idx + j) \<notin> E \<longrightarrow>
           (\<exists>emb. (str_nat (Suc idx + j), pre ! j, emb) \<in> set (collection w1))"
      using Cons.IH [OF inv run] .
    have here: "(str_nat idx, c, emb) \<in> set (collection w1)"
      using index_loop_mono [OF run] c2 by auto
    show ?thesis
    proof (intro allI impI)
      fix j assume j: "j < length (c # pre)" and n: "str_nat (idx + j) \<notin> E"
      show "\<exists>emb. (str_nat (idx + j), (c # pre) ! j, emb) \<in> set (collection w1)"
        using j n here ih by (cases j) auto
    qed
  qed
qed

text \<open>
  Claim C2. When a build did not end with an embedding error, a second build over
  the same directory, started in the state the first one left, sends no request
  and leaves the collection and its count as they were.
\<close>

theorem build_index_idempotent:
  assumes run1: "build_index env data_dir w = (r1, w1)"
    and ok: "\<forall>m. r1 \<noteq> Inr (''Error getting embedding from Ollama: '' @ m)"
  shows "requests_log (snd (build_index env data_dir w1)) = requests_log w1
       \<and> collection_count (snd (build_index env data_dir w1)) = collection_count w1"
proof (cases "load_all_chunks data_dir CHUNK_SIZE")
  case (Inl e)
  then have "w1 = w" using run1 by (simp add: build_index_def)
  then show ?thesis using Inl by (simp add: build_index_def)
next
  case (Inr cs)
  show ?thesis
  proof (cases "cs = []")
    case True
    then show ?thesis using Inr by (simp add: build_index_def)
  next
    case False
    obtain res w' where loop: "index_loop env (existing_ids_of w) (length cs) 0 cs w = (res, w')"
      by (cases "index_loop env (existing_ids_of w) (length cs) 0 cs w")
    have res: "res = None"
    proof (cases res)
      case None
      then show ?thesis .
    next
      case (Some msg)
      then obtain m where "msg = ''Error getting embedding from Ollama: '' @ m"
        using index_loop_message loop by blast
      moreover have "r1 = Inr msg" using run1 Inr False loop Some by (simp add: build_index_def)
      ultimately show ?thesis using ok by blast
    qed
    have w1: "w1 = w'" using run1 Inr False loop res by (simp add: build_index_def)
    have "\<forall>j<length cs. str_nat (0 + j) \<in> existing_ids_of w \<union> set (collection_ids w')"
      and "set (collection_ids w) \<subseteq> set (collection_ids w')"
      using index_loop_ids [OF loop [unfolded res]] by simp_all
    then have "\<forall>j<length cs. str_nat (0 + j) \<in> existing_ids_of w1"
      unfolding w1 existing_ids_of_eq by auto
    from index_loop_all_existing [OF this, of env "length cs" w1] obtain w2
      where "index_loop env (existing_ids_of w1) (length cs) 0 cs w1 = (None, w2)"
        and "collection w2 = collection w1" and "requests_log w2 = requests_log w1"
      by blast
    then show ?thesis using Inr False by (simp add: build_index_def collection_count_def)
  qed
qed

text \<open>
  Claim C5. When the embedding of a chunk fails, after the chunks before it were
  processed, the build returns at once with the error message: the failed request
  is the last one, the collection is as it was when the request was sent, and
  every earlier chunk that was not in the snapshot is stored under its id.
\<close>

theorem build_index_embedding_failure:
  assumes chunks: "load_all_chunks data_dir CHUNK_SIZE = Inr (pre @ c # post)"
    and pre: "index_loop env (existing_ids_of w) (length (pre @ c # post)) 0 pre w = (None, w1)"
    and new: "str_nat (length pre) \<notin> existing_ids_of w"
    and fail: "get_embedding env c w1 = (Inl e, w2)"
  shows "build_index env data_dir w
           = (Inr (''Error getting embedding from Ollama: '' @ exc_str e), w2)
       \<and> collection w2 = collection w1
       \<and> requests_log w2 = requests_log w1 @ [EmbeddingsCall c]
       \<and> (\<forall>j<length pre. str_nat j \<notin> existing_ids_of w \<longrightarrow>
             (\<exists>emb. (str_nat j, pre ! j, emb) \<in> set (collection w1)))"
proof -
  have "index_loop env (existing_ids_of w) (length (pre @ c # post)) 0 (pre @ c # post) w
        = (Some (''Error getting embedding from Ollama: '' @ exc_str e), w2)"
    using pre new fail by (simp add: index_loop_append)
  then have 1: "build_index env data_dir w
           = (Inr (''Error getting embedding from Ollama: '' @ exc_str e), w2)"
    using chunks by (simp add: build_index_def)
  have 2: "collection w2 = collection w1" "requests_log w2 = requests_log w1 @ [EmbeddingsCall c]"
    using get_embedding_log [OF fail] by simp_all
  have "set (collection_ids w) \<subseteq> existing_ids_of w \<union> str_nat ` {..<0}"
    by (simp add: existing_ids_of_eq)
  from index_loop_upserted [OF this pre]
  have 3: "\<forall>j<length pre. str_nat j \<notin> existing_ids_of w \<longrightarrow>
             (\<exists>emb. (str_nat j, pre ! j, emb) \<in> set (collection w1))"
    by simp
  show ?thesis using 1 2 3 by blast
qed


section \<open>Examples on the mocked environment\<close>

lemma str_nat_digits:
  "str_nat 0 = ''0''" "str_nat 1 = ''1''" "str_nat 2 = ''2''" "str_nat 3 = ''3''"
  "str_nat 4 = ''4''" "str_nat 5 = ''5''"
  by code_simp+

lemma str_nat_500: "str_nat 500 = ''500''"
  by code_simp

lemma mock_chunks: "load_all_chunks mock_dir CHUNK_SIZE = Inr [''c0'', ''c1'', ''c2'', ''c3'', ''c4'']"
proof -
  have r: "range_up 0 2 5000 = [0]"
    by (simp add: range_up.simps [of 0] range_up.simps [of 5000])
  show ?thesis
    by (simp add: load_all_chunks_def mock_dir_def glob_txt_def endswith_def strip_def isspace_def
        CHUNK_SIZE_def file_chunks_def py_range_def r py_slice_def slice_bound_def
        less_eq_char_def less_char_def)
qed

theorem generate_error_status_witness:
  "fst (ask_with_context_stream
          (mock_env mock_embed (GenResponse 500 ''Internal Server Error'' mock_lines None))
          ''Why?'' 3 seeded_world)
   = ([''Error calling Ollama generate API: 500 Server Error: Internal Server Error for url: http://localhost:11434/api/generate''],
      None)"
proof -
  let ?env = "mock_env mock_embed (GenResponse 500 ''Internal Server Error'' mock_lines None)"
  let ?w1 = "seeded_world\<lparr>requests_log := [EmbeddingsCall ''Why?'']\<rparr>"
  have q: "strip ''Why?'' \<noteq> []" by (simp add: strip_def isspace_def)
  have emb: "get_embedding ?env ''Why?'' seeded_world = (Inr 4, ?w1)"
    by (simp add: get_embedding_def mock_env_def mock_embed_def raise_for_status_def seeded_world_def)
  have qry: "collection_query ?env (collection ?w1) 4 3 = Inr (Docs [[''c0'', ''c1'', ''c2'']])"
    by (simp add: mock_env_def seeded_world_def)
  have docs: "first_documents (Docs [[''c0'', ''c1'', ''c2'']]) = Inr [''c0'', ''c1'', ''c2'']"
    by (simp add: first_documents_def)
  have gen: "generate_endpoint ?env (Suc (length (requests_log ?w1)))
                (make_prompt (if [''c0'', ''c1'', ''c2''] \<noteq> [] then join [CHR 0x0A, CHR 0x0A] [''c0'', ''c1'', ''c2''] else []) ''Why?'')
              = GenResponse 500 ''Internal Server Error'' mock_lines None"
    by (simp add: mock_env_def)
  have st: "(400::nat) \<le> 500" "(500::nat) < 600" by simp_all
  have r: "raise_for_status (OLLAMA_API @ ''/api/generate'') 500 ''Internal Server Error''
       = Some (Exc HTTPError ''500 Server Error: Internal Server Error for url: http://localhost:11434/api/generate'')"
    by (simp add: raise_for_status_def str_nat_500 OLLAMA_API_def)
  show ?thesis
    using generate_error_status [OF q emb qry docs gen st] r by auto
qed



lemma get_embedding_ok:
  assumes "embeddings_endpoint env (length (requests_log w)) text = EmbedResponse status reason (Inr v)"
    and "status < 400"
  shows "get_embedding env text w = (Inr v, w\<lparr>requests_log := requests_log w @ [EmbeddingsCall text]\<rparr>)"
  using assms by (simp add: get_embedding_def raise_for_status_def)

lemma str_nat_Suc_digits:
  "str_nat (Suc 0) = ''1''" "str_nat (Suc (Suc 0)) = ''2''" "str_nat (Suc (Suc (Suc 0))) = ''3''"
  "str_nat (Suc (Suc (Suc (Suc 0)))) = ''4''" "str_nat (Suc (Suc (Suc (Suc (Suc 0))))) = ''5''"
  by code_simp+

lemma index_loop_skip:
  "str_nat idx \<in> E \<Longrightarrow>
   index_loop env E n idx (c # rest) w =
     index_loop env E n (Suc idx) rest
       (progress (Suc idx) (''Skipping '' @ str_nat (Suc idx) @ ''/'' @ str_nat n @ '' (exists)'') w)"
  by simp

lemma index_loop_embed:
  "str_nat idx \<notin> E \<Longrightarrow> get_embedding env c w = (Inr emb, w1) \<Longrightarrow>
   index_loop env E n idx (c # rest) w =
     index_loop env E n (Suc idx) rest
       (progress (Suc idx) (''Embedded '' @ str_nat (Suc idx) @ ''/'' @ str_nat n)
          (collection_add (str_nat idx) c emb w1))"
  by simp

lemma build_index_completed:
  assumes "load_all_chunks data_dir CHUNK_SIZE = Inr cs" and "cs \<noteq> []"
    and "index_loop env (existing_ids_of w) (length cs) 0 cs w = (None, w')"
  shows "build_index env data_dir w
      = (Inr (''Index built/updated. '' @ str_nat (collection_count w') @ '' total vectors stored.''), w')"
  using assms by (simp add: build_index_def)

text \<open>
  Claim C3. With the snapshot of existing ids \<open>{0, 1, 2}\<close> and five chunks, ids \<open>0\<close>
  to \<open>4\<close>, and an embedding service that answers the two requests, the build
  sends exactly the requests for the chunks \<open>3\<close> and \<open>4\<close>, in that order, and adds
  exactly their two entries to the collection.
\<close>

theorem build_index_dedup:
  assumes chunks: "load_all_chunks data_dir CHUNK_SIZE = Inr [c0, c1, c2, c3, c4]"
    and ids: "existing_ids_of w = {''0'', ''1'', ''2''}"
    and e3: "embeddings_endpoint env (length (requests_log w)) c3 = EmbedResponse s3 r3 (Inr v3)"
    and s3: "s3 < 400"
    and e4: "embeddings_endpoint env (Suc (length (requests_log w))) c4 = EmbedResponse s4 r4 (Inr v4)"
    and s4: "s4 < 400"
  shows "requests_log (snd (build_index env data_dir w))
           = requests_log w @ [EmbeddingsCall c3, EmbeddingsCall c4]
       \<and> collection (snd (build_index env data_dir w))
           = collection w @ [(''3'', c3, v3), (''4'', c4, v4)]
       \<and> fst (build_index env data_dir w)
           = Inr (''Index built/updated. '' @ str_nat (collection_count w + 2)
                  @ '' total vectors stored.'')"
proof -
  define E :: "string set" where "E = {''0'', ''1'', ''2''}"
  define n :: nat where "n = 5"
  define i1 i2 i3 i4 i5 where "i1 = Suc 0" and "i2 = Suc i1" and "i3 = Suc i2"
    and "i4 = Suc i3" and "i5 = Suc i4"
  note idx = i1_def i2_def i3_def i4_def i5_def
  define p1 where "p1 = progress i1 (''Skipping '' @ str_nat i1 @ ''/'' @ str_nat n @ '' (exists)'') w"
  define p2 where "p2 = progress i2 (''Skipping '' @ str_nat i2 @ ''/'' @ str_nat n @ '' (exists)'') p1"
  define p3 where "p3 = progress i3 (''Skipping '' @ str_nat i3 @ ''/'' @ str_nat n @ '' (exists)'') p2"
  define g3 where "g3 = p3\<lparr>requests_log := requests_log p3 @ [EmbeddingsCall c3]\<rparr>"
  define p4 where "p4 = progress i4 (''Embedded '' @ str_nat i4 @ ''/'' @ str_nat n)
                          (collection_add (str_nat i3) c3 v3 g3)"
  define g4 where "g4 = p4\<lparr>requests_log := requests_log p4 @ [EmbeddingsCall c4]\<rparr>"
  define p5 where "p5 = progress i5 (''Embedded '' @ str_nat i5 @ ''/'' @ str_nat n)
                          (collection_add (str_nat i4) c4 v4 g4)"
  have idsw: "set (collection_ids w) = {''0'', ''1'', ''2''}"
    using ids by (simp add: existing_ids_of_eq)
  have m: "str_nat 0 \<in> E" "str_nat i1 \<in> E" "str_nat i2 \<in> E" "str_nat i3 \<notin> E" "str_nat i4 \<notin> E"
    and d: "str_nat i3 = ''3''" "str_nat i4 = ''4''"
    by (simp_all add: E_def idx str_nat_Suc_digits str_nat_digits)
  have p3c: "collection p3 = collection w" "requests_log p3 = requests_log w"
    by (simp_all add: p3_def p2_def p1_def progress_def)
  have g3: "get_embedding env c3 p3 = (Inr v3, g3)"
    unfolding g3_def by (rule get_embedding_ok [OF _ s3]) (simp add: p3c e3)
  have c4: "collection p4 = collection w @ [(''3'', c3, v3)]"
    "requests_log p4 = requests_log w @ [EmbeddingsCall c3]"
    using idsw by (simp_all add: p4_def g3_def progress_def collection_add_def collection_ids_def p3c d)
  have g4: "get_embedding env c4 p4 = (Inr v4, g4)"
    unfolding g4_def by (rule get_embedding_ok [OF _ s4]) (simp add: c4 e4)
  have c5: "collection p5 = collection w @ [(''3'', c3, v3), (''4'', c4, v4)]"
    "requests_log p5 = requests_log w @ [EmbeddingsCall c3, EmbeddingsCall c4]"
    using idsw by (simp_all add: p5_def g4_def progress_def collection_add_def collection_ids_def c4 d)
  have "index_loop env E n 0 [c0, c1, c2, c3, c4] w = index_loop env E n i1 [c1, c2, c3, c4] p1"
    unfolding p1_def i1_def by (rule index_loop_skip [OF m(1)])
  also have "\<dots> = index_loop env E n i2 [c2, c3, c4] p2"
    unfolding p2_def i2_def by (rule index_loop_skip [OF m(2)])
  also have "\<dots> = index_loop env E n i3 [c3, c4] p3"
    unfolding p3_def i3_def by (rule index_loop_skip [OF m(3)])
  also have "\<dots> = index_loop env E n i4 [c4] p4"
    unfolding p4_def i4_def by (rule index_loop_embed [OF m(4) g3])
  also have "\<dots> = index_loop env E n i5 [] p5"
    unfolding p5_def i5_def by (rule index_loop_embed [OF m(5) g4])
  also have "\<dots> = (None, p5)" by simp
  finally have loop: "index_loop env E n 0 [c0, c1, c2, c3, c4] w = (None, p5)" .
  have len: "length [c0, c1, c2, c3, c4] = n" by (simp add: n_def)
  have "build_index env data_dir w
      = (Inr (''Index built/updated. '' @ str_nat (collection_count p5) @ '' total vectors stored.''), p5)"
  proof (rule build_index_completed [OF chunks])
    show "[c0, c1, c2, c3, c4] \<noteq> []" by simp
    show "index_loop env (existing_ids_of w) (length [c0, c1, c2, c3, c4]) 0 [c0, c1, c2, c3, c4] w = (None, p5)"
      unfolding len ids E_def [symmetric] by (rule loop)
  qed
  moreover have "collection_count p5 = collection_count w + 2"
    by (simp add: collection_count_def c5)
  ultimately show ?thesis using c5 by simp
qed

lemma index_loop_mock_ok:
  "fst (index_loop (mock_env mock_embed gen) E n idx cs w) = None"
proof (induction cs arbitrary: idx w)
  case Nil
  show ?case by simp
next
  case (Cons c cs)
  have g: "get_embedding (mock_env mock_embed gen) c w
      = (Inr (length c), w\<lparr>requests_log := requests_log w @ [EmbeddingsCall c]\<rparr>)"
    by (rule get_embedding_ok [where status = 200 and reason = "''OK''"])
       (simp_all add: mock_env_def mock_embed_def)
  show ?case
    by (cases "str_nat idx \<in> E") (simp_all add: g Cons.IH)
qed

lemma mock_first_run:
  "\<exists>n. fst (build_index (mock_env mock_embed gen) mock_dir w)
       = Inr (''Index built/updated. '' @ n)"
proof -
  obtain r w' where l: "index_loop (mock_env mock_embed gen) (existing_ids_of w)
        (length [''c0'', ''c1'', ''c2'', ''c3'', ''c4'']) 0 [''c0'', ''c1'', ''c2'', ''c3'', ''c4''] w = (r, w')"
    by (cases "index_loop (mock_env mock_embed gen) (existing_ids_of w)
        (length [''c0'', ''c1'', ''c2'', ''c3'', ''c4'']) 0 [''c0'', ''c1'', ''c2'', ''c3'', ''c4''] w")
  have "r = None"
    using index_loop_mock_ok [of gen "existing_ids_of w" "length [''c0'', ''c1'', ''c2'', ''c3'', ''c4'']"
        0 "[''c0'', ''c1'', ''c2'', ''c3'', ''c4'']" w] l by simp
  then have "build_index (mock_env mock_embed gen) mock_dir w
      = (Inr (''Index built/updated. '' @ str_nat (collection_count w') @ '' total vectors stored.''), w')"
    using l by (intro build_index_completed [OF mock_chunks]) simp_all
  then show ?thesis by simp
qed


theorem build_index_dedup_witness:
  "requests_log (snd (build_index (mock_env mock_embed (GenFailed (Exc RequestException ''down'')))
                        mock_dir seeded_world))
     = [EmbeddingsCall ''c3'', EmbeddingsCall ''c4'']
   \<and> collection (snd (build_index (mock_env mock_embed (GenFailed (Exc RequestException ''down'')))
                        mock_dir seeded_world))
     = [(''0'', ''c0'', 2), (''1'', ''c1'', 2), (''2'', ''c2'', 2), (''3'', ''c3'', 2), (''4'', ''c4'', 2)]
   \<and> fst (build_index (mock_env mock_embed (GenFailed (Exc RequestException ''down'')))
                        mock_dir seeded_world)
     = Inr ''Index built/updated. 5 total vectors stored.''"
proof -
  let ?env = "mock_env mock_embed (GenFailed (Exc RequestException ''down''))"
  have ids: "existing_ids_of seeded_world = {''0'', ''1'', ''2''}"
    by (simp add: existing_ids_of_eq collection_ids_def seeded_world_def)
  have e3: "embeddings_endpoint ?env (length (requests_log seeded_world)) ''c3''
             = EmbedResponse 200 ''OK'' (Inr 2)"
    by (simp add: mock_env_def mock_embed_def)
  have e4: "embeddings_endpoint ?env (Suc (length (requests_log seeded_world))) ''c4''
             = EmbedResponse 200 ''OK'' (Inr 2)"
    by (simp add: mock_env_def mock_embed_def)
  have s: "(200::nat) < 400" by simp
  have n: "str_nat (collection_count seeded_world + 2) = ''5''"
    by (simp add: collection_count_def seeded_world_def str_nat_Suc_digits)
  have l: "requests_log seeded_world = []"
    and c: "collection seeded_world = [(''0'', ''c0'', 2), (''1'', ''c1'', 2), (''2'', ''c2'', 2)]"
    by (simp_all add: seeded_world_def)
  show ?thesis
    using build_index_dedup [OF mock_chunks ids e3 s e4 s] unfolding n l c by simp
qed

theorem build_index_idempotent_witness:
  "requests_log (snd (build_index (mock_env mock_embed (GenFailed (Exc RequestException ''down''))) mock_dir
       (snd (build_index (mock_env mock_embed (GenFailed (Exc RequestException ''down''))) mock_dir empty_world))))
   = requests_log (snd (build_index (mock_env mock_embed (GenFailed (Exc RequestException ''down''))) mock_dir empty_world))
   \<and> collection_count (snd (build_index (mock_env mock_embed (GenFailed (Exc RequestException ''down''))) mock_dir
       (snd (build_index (mock_env mock_embed (GenFailed (Exc RequestException ''down''))) mock_dir empty_world))))
   = collection_count (snd (build_index (mock_env mock_embed (GenFailed (Exc RequestException ''down''))) mock_dir empty_world))"
proof -
  let ?env = "mock_env mock_embed (GenFailed (Exc RequestException ''down''))"
  have run1: "build_index ?env mock_dir empty_world
     = (fst (build_index ?env mock_dir empty_world), snd (build_index ?env mock_dir empty_world))"
    by simp
  obtain n where "fst (build_index ?env mock_dir empty_world) = Inr (''Index built/updated. '' @ n)"
    using mock_first_run by blast
  then have ok: "\<forall>m. fst (build_index ?env mock_dir empty_world)
               \<noteq> Inr (''Error getting embedding from Ollama: '' @ m)"
    by simp
  show ?thesis using build_index_idempotent [OF run1 ok] .
qed

lemma flaky_prefix:
  "index_loop (mock_env (flaky_embed 1) gen) {''0'', ''1'', ''2''} 5 0
     [''c0'', ''c1'', ''c2'', ''c3''] seeded_world
   = (None,
      \<lparr>collection = [(''0'', ''c0'', 2), (''1'', ''c1'', 2), (''2'', ''c2'', 2), (''3'', ''c3'', 2)],
       requests_log = [EmbeddingsCall ''c3''],
       progress_log = [(1, ''Skipping 1/5 (exists)''), (2, ''Skipping 2/5 (exists)''),
                       (3, ''Skipping 3/5 (exists)''), (4, ''Embedded 4/5'')]\<rparr>)"
  by (simp add: str_nat_digits str_nat_Suc_digits progress_def get_embedding_def mock_env_def
      flaky_embed_def raise_for_status_def collection_add_def collection_ids_def seeded_world_def
      Let_def eval_nat_numeral)


theorem build_index_embedding_failure_witness:
  "build_index (mock_env (flaky_embed 1) (GenFailed (Exc RequestException ''down''))) mock_dir seeded_world
   = (Inr ''Error getting embedding from Ollama: Connection refused'',
      \<lparr>collection = [(''0'', ''c0'', 2), (''1'', ''c1'', 2), (''2'', ''c2'', 2), (''3'', ''c3'', 2)],
       requests_log = [EmbeddingsCall ''c3'', EmbeddingsCall ''c4''],
       progress_log = [(1, ''Skipping 1/5 (exists)''), (2, ''Skipping 2/5 (exists)''),
                       (3, ''Skipping 3/5 (exists)''), (4, ''Embedded 4/5'')]\<rparr>)
   \<and> (str_nat 3, [''c0'', ''c1'', ''c2'', ''c3''] ! 3, 2)
       \<in> set [(''0'', ''c0'', 2), (''1'', ''c1'', 2), (''2'', ''c2'', 2), (''3'', ''c3'', 2::nat)]"
proof -
  let ?env = "mock_env (flaky_embed 1) (GenFailed (Exc RequestException ''down''))"
  let ?w1 = "\<lparr>collection = [(''0'', ''c0'', 2), (''1'', ''c1'', 2), (''2'', ''c2'', 2), (''3'', ''c3'', 2::nat)],
       requests_log = [EmbeddingsCall ''c3''],
       progress_log = [(1, ''Skipping 1/5 (exists)''), (2, ''Skipping 2/5 (exists)''),
                       (3, ''Skipping 3/5 (exists)''), (4, ''Embedded 4/5'')]\<rparr>"
  let ?w2 = "\<lparr>collection = [(''0'', ''c0'', 2), (''1'', ''c1'', 2), (''2'', ''c2'', 2), (''3'', ''c3'', 2::nat)],
       requests_log = [EmbeddingsCall ''c3'', EmbeddingsCall ''c4''],
       progress_log = [(1, ''Skipping 1/5 (exists)''), (2, ''Skipping 2/5 (exists)''),
                       (3, ''Skipping 3/5 (exists)''), (4, ''Embedded 4/5'')]\<rparr>"
  have ids: "existing_ids_of seeded_world = {''0'', ''1'', ''2''}"
    by (simp add: existing_ids_of_eq collection_ids_def seeded_world_def)
  have chunks: "load_all_chunks mock_dir CHUNK_SIZE = Inr ([''c0'', ''c1'', ''c2'', ''c3''] @ ''c4'' # [])"
    using mock_chunks by simp
  have len: "length ([''c0'', ''c1'', ''c2'', ''c3''] @ ''c4'' # []) = 5" by simp
  have pre: "index_loop ?env (existing_ids_of seeded_world)
               (length ([''c0'', ''c1'', ''c2'', ''c3''] @ ''c4'' # [])) 0
               [''c0'', ''c1'', ''c2'', ''c3''] seeded_world = (None, ?w1)"
    unfolding ids len by (rule flaky_prefix)
  have new: "str_nat (length [''c0'', ''c1'', ''c2'', ''c3'']) \<notin> existing_ids_of seeded_world"
    unfolding ids by (simp add: str_nat_Suc_digits)
  have fail: "get_embedding ?env ''c4'' ?w1 = (Inl (Exc RequestException ''Connection refused''), ?w2)"
    by (simp add: get_embedding_def mock_env_def flaky_embed_def)
  have d: "str_nat 3 = ''3''" by (rule str_nat_digits)
  show ?thesis
    using build_index_embedding_failure [OF chunks pre new fail] unfolding d by simp
qed







end
